theory Spec2Isabelle
  imports Complex_Main "HOL-Library.Multiset" "HOL-Library.AList"
begin

section \<open>The decision core of the gateway manager\<close>

text \<open>
  A shallow embedding of \<^verbatim>\<open>src/gateway_manager.py\<close>. Python's unbounded integers are
  \<open>int\<close>; Python floats (timestamps, latencies, thresholds, ratios) are idealised as
  \<open>real\<close>; every reading of \<^verbatim>\<open>time.time()\<close> and the draw of
  \<^verbatim>\<open>random.uniform\<close> are explicit arguments; a mutated object is passed in and
  returned updated. Locks do not appear: every operation is modelled as one atomic step.
\<close>

subsection \<open>Data model\<close>

datatype GatewayStatus = HEALTHY | DEGRADED | UNHEALTHY | MAINTENANCE

datatype RateLimitStrategy = TOKEN_BUCKET | SLIDING_WINDOW | FIXED_WINDOW

text \<open>The field \<^verbatim>\<open>method\<close> is \<open>route_method\<close> here.\<close>

record RouteConfig =
  path :: string
  route_method :: string
  backend_service :: string
  backend_port :: int
  timeout_ms :: int
  retry_count :: int
  circuit_breaker_threshold :: real
  authentication_required :: bool
  rate_limit_requests :: int
  rate_limit_window_seconds :: int
  enabled :: bool
  tags :: "(string \<times> string) list"

record ServiceInstance =
  host :: string
  port :: int
  weight :: int
  health_check_interval_seconds :: int
  max_connections :: int
  last_health_check :: "string option"
  is_healthy :: bool
  consecutive_failures :: int

record RateLimitConfig =
  rl_strategy :: RateLimitStrategy
  requests_per_window :: int
  window_size_seconds :: int
  cleanup_interval_seconds :: int

subsection \<open>CircuitBreaker\<close>

text \<open>
  The attribute \<^verbatim>\<open>state\<close> is a string in the source; only the three literals
  \<^verbatim>\<open>"closed"\<close>, \<^verbatim>\<open>"open"\<close> and \<^verbatim>\<open>"half-open"\<close> are ever assigned to it.
\<close>

datatype cb_state = Closed | Open | HalfOpen

record CircuitBreaker =
  threshold :: real
  timeout_seconds :: int
  failure_count :: int
  success_count :: int
  last_failure_time :: "real option"
  state :: cb_state

definition CircuitBreaker_init :: "real \<Rightarrow> int \<Rightarrow> CircuitBreaker" where
  "CircuitBreaker_init thr tmo =
     \<lparr>threshold = thr, timeout_seconds = tmo, failure_count = 0, success_count = 0,
      last_failure_time = None, state = Closed\<rparr>"

definition record_success :: "CircuitBreaker \<Rightarrow> CircuitBreaker" where
  "record_success b =
     (let b1 = b\<lparr>success_count := success_count b + 1\<rparr>
      in if state b1 = HalfOpen
         then b1\<lparr>state := Closed, failure_count := 0, success_count := 0\<rparr>
         else b1)"

definition record_failure :: "CircuitBreaker \<Rightarrow> real \<Rightarrow> CircuitBreaker" where
  "record_failure b now =
     (let b1 = b\<lparr>failure_count := failure_count b + 1, last_failure_time := Some now\<rparr>;
          total = failure_count b1 + success_count b1
      in if total > 0 \<and> real_of_int (failure_count b1) / real_of_int total > threshold b1
         then b1\<lparr>state := Open\<rparr>
         else b1)"

text \<open>
  \<^verbatim>\<open>if self.last_failure_time and ...\<close>: \<^verbatim>\<open>None\<close> and \<^verbatim>\<open>0.0\<close> are both falsy.
\<close>

definition can_execute :: "CircuitBreaker \<Rightarrow> real \<Rightarrow> bool \<times> CircuitBreaker" where
  "can_execute b now =
     (case state b of
        Closed \<Rightarrow> (True, b)
      | Open \<Rightarrow>
          (case last_failure_time b of
             None \<Rightarrow> (False, b)
           | Some lf \<Rightarrow>
               if lf \<noteq> 0 \<and> now - lf > real_of_int (timeout_seconds b)
               then (True, b\<lparr>state := HalfOpen, failure_count := 0, success_count := 0\<rparr>)
               else (False, b))
      | HalfOpen \<Rightarrow> (True, b))"

text \<open>The guard of the open branch of \<^verbatim>\<open>can_execute\<close>, as a predicate.\<close>

definition timed_out :: "CircuitBreaker \<Rightarrow> real \<Rightarrow> bool" where
  "timed_out b now =
     (case last_failure_time b of
        None \<Rightarrow> False
      | Some lf \<Rightarrow> lf \<noteq> 0 \<and> real_of_int (timeout_seconds b) < now - lf)"

text \<open>One call on a breaker; the timestamp is what \<^verbatim>\<open>time.time()\<close> returns in it.\<close>

datatype cb_call = RecordSuccess | RecordFailure real | CanExecute real

fun cb_step :: "CircuitBreaker \<Rightarrow> cb_call \<Rightarrow> bool option \<times> CircuitBreaker" where
  "cb_step b RecordSuccess = (None, record_success b)"
| "cb_step b (RecordFailure now) = (None, record_failure b now)"
| "cb_step b (CanExecute now) = (case can_execute b now of (r, b') \<Rightarrow> (Some r, b'))"

fun cb_run :: "CircuitBreaker \<Rightarrow> cb_call list \<Rightarrow> CircuitBreaker" where
  "cb_run b [] = b"
| "cb_run b (c # cs) = cb_run (snd (cb_step b c)) cs"

definition failure_ratio :: "CircuitBreaker \<Rightarrow> real" where
  "failure_ratio b =
     real_of_int (failure_count b) / real_of_int (failure_count b + success_count b)"

subsection \<open>RateLimiter\<close>

record RateLimiter =
  config :: RateLimitConfig
  buckets :: "string \<rightharpoonup> real list"

definition RateLimiter_init :: "RateLimitConfig \<Rightarrow> RateLimiter" where
  "RateLimiter_init cfg = \<lparr>config = cfg, buckets = Map.empty\<rparr>"

definition bucket_of :: "RateLimiter \<Rightarrow> string \<Rightarrow> real list" where
  "bucket_of rl client_id = (case buckets rl client_id of None \<Rightarrow> [] | Some ts \<Rightarrow> ts)"

definition prune :: "RateLimiter \<Rightarrow> string \<Rightarrow> real \<Rightarrow> real list" where
  "prune rl client_id now =
     filter (\<lambda>ts. now - ts < real_of_int (window_size_seconds (config rl)))
       (bucket_of rl client_id)"

definition is_allowed :: "RateLimiter \<Rightarrow> string \<Rightarrow> real \<Rightarrow> bool \<times> RateLimiter" where
  "is_allowed rl client_id now =
     (let pruned = prune rl client_id now
      in if int (length pruned) < requests_per_window (config rl)
         then (True, rl\<lparr>buckets := (buckets rl)(client_id \<mapsto> pruned @ [now])\<rparr>)
         else (False, rl\<lparr>buckets := (buckets rl)(client_id \<mapsto> pruned)\<rparr>))"

text \<open>A sequence of calls, each by some client at some reading of the clock.\<close>

fun is_allowed_seq :: "RateLimiter \<Rightarrow> (string \<times> real) list \<Rightarrow> bool list \<times> RateLimiter" where
  "is_allowed_seq rl [] = ([], rl)"
| "is_allowed_seq rl ((c, now) # cs) =
     (case is_allowed rl c now of
        (r, rl') \<Rightarrow> (case is_allowed_seq rl' cs of (rs, rl'') \<Rightarrow> (r # rs, rl'')))"

subsection \<open>LoadBalancer\<close>

record LoadBalancer =
  strategy :: string
  current_index :: int

definition LoadBalancer_init :: LoadBalancer where
  "LoadBalancer_init = \<lparr>strategy = ''round_robin'', current_index = 0\<rparr>"

text \<open>\<^verbatim>\<open>min(healthy, key=...)\<close> keeps the first of several minimal elements.\<close>

fun min_by :: "('a \<Rightarrow> int) \<Rightarrow> 'a \<Rightarrow> 'a list \<Rightarrow> 'a" where
  "min_by key best [] = best"
| "min_by key best (x # xs) = min_by key (if key x < key best then x else best) xs"

text \<open>The \<^verbatim>\<open>for instance in healthy\<close> loop of the weighted strategy; \<open>None\<close> when
  the loop ends without returning.\<close>

fun weighted_walk :: "ServiceInstance list \<Rightarrow> real \<Rightarrow> int \<Rightarrow> ServiceInstance option" where
  "weighted_walk [] r accumulated = None"
| "weighted_walk (i # is) r accumulated =
     (let accumulated' = accumulated + weight i
      in if r \<le> real_of_int accumulated' then Some i else weighted_walk is r accumulated')"

text \<open>
  \<open>r\<close> is the value that \<^verbatim>\<open>random.uniform(0, total_weight)\<close> returns; it is read only
  by the weighted strategy with a non-zero total weight.
\<close>

definition select_instance ::
  "LoadBalancer \<Rightarrow> ServiceInstance list \<Rightarrow> real \<Rightarrow> ServiceInstance option \<times> LoadBalancer" where
  "select_instance lb instances r =
     (case filter is_healthy instances of
        [] \<Rightarrow> (None, lb)
      | h # hs \<Rightarrow>
          (let healthy = h # hs in
           if strategy lb = ''round_robin'' then
             (let idx = current_index lb mod int (length healthy)
              in (Some (healthy ! nat idx), lb\<lparr>current_index := current_index lb + 1\<rparr>))
           else if strategy lb = ''least_connections'' then
             (Some (min_by max_connections h hs), lb)
           else if strategy lb = ''weighted'' then
             (let total_weight = sum_list (map weight healthy)
              in if total_weight = 0 then (Some h, lb)
                 else (case weighted_walk healthy r 0 of
                         Some i \<Rightarrow> (Some i, lb)
                       | None \<Rightarrow> (Some (last healthy), lb)))
           else (Some h, lb)))"

text \<open>Consecutive calls on one balancer with the same instance list, one draw per call.\<close>

fun select_many ::
  "LoadBalancer \<Rightarrow> ServiceInstance list \<Rightarrow> real list \<Rightarrow> ServiceInstance option list \<times> LoadBalancer" where
  "select_many lb instances [] = ([], lb)"
| "select_many lb instances (r # rs) =
     (case select_instance lb instances r of
        (x, lb') \<Rightarrow> (case select_many lb' instances rs of (xs, lb'') \<Rightarrow> (x # xs, lb'')))"

definition cumulative_weight :: "ServiceInstance list \<Rightarrow> nat \<Rightarrow> int" where
  "cumulative_weight healthy k = sum_list (map weight (take (Suc k) healthy))"

subsection \<open>GatewayMetrics\<close>

record GatewayMetrics =
  requests_total :: int
  requests_success :: int
  requests_failed :: int
  requests_latency_ms :: "real list"
  bytes_in :: int
  bytes_out :: int

definition GatewayMetrics_init :: GatewayMetrics where
  "GatewayMetrics_init =
     \<lparr>requests_total = 0, requests_success = 0, requests_failed = 0,
      requests_latency_ms = [], bytes_in = 0, bytes_out = 0\<rparr>"

text \<open>\<^verbatim>\<open>xs[-10000:]\<close> keeps the last 10000 elements.\<close>

definition record_request :: "GatewayMetrics \<Rightarrow> bool \<Rightarrow> real \<Rightarrow> int \<Rightarrow> int \<Rightarrow> GatewayMetrics" where
  "record_request m success latency bi bo =
     (let m1 = m\<lparr>requests_total := requests_total m + 1\<rparr>;
          m2 = (if success then m1\<lparr>requests_success := requests_success m1 + 1\<rparr>
                else m1\<lparr>requests_failed := requests_failed m1 + 1\<rparr>);
          m3 = m2\<lparr>requests_latency_ms := requests_latency_ms m2 @ [latency],
                  bytes_in := bytes_in m2 + bi, bytes_out := bytes_out m2 + bo\<rparr>
      in if length (requests_latency_ms m3) > 10000
         then m3\<lparr>requests_latency_ms :=
                   drop (length (requests_latency_ms m3) - 10000) (requests_latency_ms m3)\<rparr>
         else m3)"

fun record_requests :: "GatewayMetrics \<Rightarrow> (bool \<times> real \<times> int \<times> int) list \<Rightarrow> GatewayMetrics" where
  "record_requests m [] = m"
| "record_requests m ((success, latency, bi, bo) # qs) =
     record_requests (record_request m success latency bi bo) qs"

text \<open>The dictionary returned by \<^verbatim>\<open>get_stats\<close>, one field per key.\<close>

record GatewayStats =
  stat_requests_total :: int
  stat_requests_success :: int
  stat_requests_failed :: int
  success_rate :: real
  avg_latency_ms :: real
  p95_latency_ms :: real
  p99_latency_ms :: real
  stat_bytes_in :: int
  stat_bytes_out :: int

text \<open>\<^verbatim>\<open>int(len(latencies) * q)\<close> for a non-negative product.\<close>

definition percentile_index :: "nat \<Rightarrow> real \<Rightarrow> nat" where
  "percentile_index n q = nat \<lfloor>real n * q\<rfloor>"

definition get_stats :: "GatewayMetrics \<Rightarrow> GatewayStats" where
  "get_stats m =
     (let latencies = requests_latency_ms m in
      \<lparr>stat_requests_total = requests_total m,
       stat_requests_success = requests_success m,
       stat_requests_failed = requests_failed m,
       success_rate = real_of_int (requests_success m) / real_of_int (max 1 (requests_total m)),
       avg_latency_ms =
         (if latencies \<noteq> [] then sum_list latencies / real (length latencies) else 0),
       p95_latency_ms =
         (if latencies \<noteq> [] then sort latencies ! percentile_index (length latencies) 0.95
          else 0),
       p99_latency_ms =
         (if latencies \<noteq> [] then sort latencies ! percentile_index (length latencies) 0.99
          else 0),
       stat_bytes_in = bytes_in m,
       stat_bytes_out = bytes_out m\<rparr>)"

subsection \<open>APIGatewayManager\<close>

text \<open>The manager's dictionaries are association lists in insertion order, as a Python
  \<^verbatim>\<open>dict\<close> iterates; \<open>AList.update\<close> overwrites a present key in place and appends a new one.\<close>

record APIGatewayManager =
  routes :: "(string \<times> RouteConfig) list"
  services :: "(string \<times> ServiceInstance list) list"
  circuit_breakers :: "(string \<times> CircuitBreaker) list"
  rate_limiters :: "(string \<times> RateLimiter) list"
  load_balancers :: "(string \<times> LoadBalancer) list"
  metrics :: GatewayMetrics
  status :: GatewayStatus
  config_path :: string

definition route_key_of :: "RouteConfig \<Rightarrow> string" where
  "route_key_of route = route_method route @ '':'' @ path route"

definition add_route :: "APIGatewayManager \<Rightarrow> RouteConfig \<Rightarrow> APIGatewayManager" where
  "add_route g route =
     (let route_key = route_key_of route;
          g1 = g\<lparr>routes := AList.update route_key route (routes g)\<rparr>;
          g2 = (if map_of (load_balancers g1) (backend_service route) = None
                then g1\<lparr>load_balancers :=
                          AList.update (backend_service route) LoadBalancer_init (load_balancers g1)\<rparr>
                else g1)
      in if map_of (rate_limiters g2) route_key = None
         then g2\<lparr>rate_limiters :=
                   AList.update route_key
                     (RateLimiter_init
                        \<lparr>rl_strategy = SLIDING_WINDOW,
                         requests_per_window = rate_limit_requests route,
                         window_size_seconds = rate_limit_window_seconds route,
                         cleanup_interval_seconds = 300\<rparr>)
                     (rate_limiters g2)\<rparr>
         else g2)"

definition register_service ::
  "APIGatewayManager \<Rightarrow> string \<Rightarrow> ServiceInstance \<Rightarrow> APIGatewayManager" where
  "register_service g service_name instance =
     (let g1 = (if map_of (services g) service_name = None
                then g\<lparr>services := AList.update service_name [] (services g),
                       circuit_breakers :=
                         AList.update service_name (CircuitBreaker_init 0.5 60) (circuit_breakers g)\<rparr>
                else g)
      in g1\<lparr>services :=
              AList.map_entry service_name (\<lambda>instances. instances @ [instance]) (services g1)\<rparr>)"

definition healthy_instance_count :: "(string \<times> ServiceInstance list) list \<Rightarrow> nat" where
  "healthy_instance_count svcs =
     sum_list (map (\<lambda>(service_name, instances). length (filter is_healthy instances)) svcs)"

definition total_instance_count :: "(string \<times> ServiceInstance list) list \<Rightarrow> nat" where
  "total_instance_count svcs =
     sum_list (map (\<lambda>(service_name, instances). length instances) svcs)"

definition health_check :: "APIGatewayManager \<Rightarrow> GatewayStatus \<times> APIGatewayManager" where
  "health_check g =
     (let total_services = length (services g) in
      if total_services = 0 then (HEALTHY, g\<lparr>status := HEALTHY\<rparr>)
      else
        (let healthy_services = healthy_instance_count (services g);
             health_ratio = real healthy_services / real (total_services * 2);
             s = (if health_ratio > 0.75 then HEALTHY
                  else if health_ratio > 0.5 then DEGRADED
                  else UNHEALTHY)
         in (s, g\<lparr>status := s\<rparr>)))"

text \<open>The fields as \<^verbatim>\<open>__init__\<close> sets them before \<^verbatim>\<open>load_config\<close> runs.\<close>

definition APIGatewayManager_empty :: "string \<Rightarrow> APIGatewayManager" where
  "APIGatewayManager_empty p =
     \<lparr>routes = [], services = [], circuit_breakers = [], rate_limiters = [],
      load_balancers = [], metrics = GatewayMetrics_init, status = HEALTHY, config_path = p\<rparr>"

definition default_instance :: "string \<Rightarrow> int \<Rightarrow> ServiceInstance" where
  "default_instance h p =
     \<lparr>host = h, port = p, weight = 1, health_check_interval_seconds = 30,
      max_connections = 1000, last_health_check = None, is_healthy = True,
      consecutive_failures = 0\<rparr>"

text \<open>A \<^verbatim>\<open>RouteConfig\<close> built with the defaults of the dataclass.\<close>

definition default_route :: "string \<Rightarrow> string \<Rightarrow> string \<Rightarrow> int \<Rightarrow> RouteConfig" where
  "default_route p m svc prt =
     \<lparr>path = p, route_method = m, backend_service = svc, backend_port = prt,
      timeout_ms = 5000, retry_count = 3, circuit_breaker_threshold = 0.5,
      authentication_required = True, rate_limit_requests = 1000,
      rate_limit_window_seconds = 60, enabled = True, tags = []\<rparr>"

definition initialize_defaults :: "APIGatewayManager \<Rightarrow> APIGatewayManager" where
  "initialize_defaults g =
     add_route g
       ((default_route ''/api/v1/health'' ''GET'' ''health-check'' 8080)
          \<lparr>authentication_required := False\<rparr>)"

subsection \<open>The status rule as the specification words it\<close>

text \<open>
  The specification's rule, for comparison with \<open>health_check\<close>: the ratio of healthy
  instances to all instances of all registered services.
\<close>

definition spec_health_status :: "(string \<times> ServiceInstance list) list \<Rightarrow> GatewayStatus" where
  "spec_health_status svcs =
     (if svcs = [] then HEALTHY
      else
        (let ratio = real (healthy_instance_count svcs) / real (total_instance_count svcs)
         in if ratio > 0.75 then HEALTHY else if ratio > 0.5 then DEGRADED else UNHEALTHY))"

section \<open>Circuit breaker transitions\<close>

lemma cb_step_counts_nonneg:
  "0 \<le> failure_count b \<Longrightarrow> 0 \<le> success_count b \<Longrightarrow>
   0 \<le> failure_count (snd (cb_step b c)) \<and> 0 \<le> success_count (snd (cb_step b c))"
  by (cases c)
     (auto simp: record_success_def record_failure_def can_execute_def Let_def
           split: cb_state.splits option.splits)

lemma cb_run_counts_nonneg:
  "0 \<le> failure_count b \<Longrightarrow> 0 \<le> success_count b \<Longrightarrow>
   0 \<le> failure_count (cb_run b cs) \<and> 0 \<le> success_count (cb_run b cs)"
proof (induction cs arbitrary: b)
  case Nil
  then show ?case by simp
next
  case (Cons c cs)
  from cb_step_counts_nonneg [OF Cons.prems, of c] Cons.IH [of "snd (cb_step b c)"]
  show ?case by simp
qed

lemma cb_reachable_counts_nonneg:
  "0 \<le> failure_count (cb_run (CircuitBreaker_init thr tmo) cs) \<and>
   0 \<le> success_count (cb_run (CircuitBreaker_init thr tmo) cs)"
  by (rule cb_run_counts_nonneg) (simp_all add: CircuitBreaker_init_def)

lemma record_failure_state:
  "state (record_failure b now) =
     (if 0 < failure_count (record_failure b now) + success_count (record_failure b now)
         \<and> threshold b < failure_ratio (record_failure b now)
      then Open else state b)"
  by (auto simp add: record_failure_def failure_ratio_def Let_def)

lemma record_failure_fields:
  "failure_count (record_failure b now) = failure_count b + 1"
  "success_count (record_failure b now) = success_count b"
  "last_failure_time (record_failure b now) = Some now"
  "threshold (record_failure b now) = threshold b"
  "timeout_seconds (record_failure b now) = timeout_seconds b"
  by (simp_all add: record_failure_def Let_def)

lemma record_success_state:
  "state (record_success b) = (if state b = HalfOpen then Closed else state b)"
  by (simp add: record_success_def Let_def)

lemma record_success_fields:
  "failure_count (record_success b) = (if state b = HalfOpen then 0 else failure_count b)"
  "success_count (record_success b) = (if state b = HalfOpen then 0 else success_count b + 1)"
  by (simp_all add: record_success_def Let_def)

lemma can_execute_cases:
  "can_execute b now =
     (if state b = Open
      then if timed_out b now
           then (True, b\<lparr>state := HalfOpen, failure_count := 0, success_count := 0\<rparr>)
           else (False, b)
      else (True, b))"
  by (simp add: can_execute_def timed_out_def split: cb_state.splits option.splits)

text \<open>
  Claim C2. Let \<open>b\<close> be the breaker reached from a fresh (closed) breaker by any sequence of
  \<^verbatim>\<open>record_failure\<close>, \<^verbatim>\<open>record_success\<close> and \<^verbatim>\<open>can_execute\<close> calls, and \<open>b'\<close> the
  breaker after one more call \<open>c\<close>. Then: from closed the breaker opens exactly when \<open>c\<close> is a
  \<^verbatim>\<open>record_failure\<close> after which the total of the two counters is positive and
  \<open>failure_count / (failure_count + success_count)\<close> exceeds the threshold (after a
  \<^verbatim>\<open>record_failure\<close> the total is always positive on a reachable breaker, and on any
  breaker whose total would be 0 the state is left as it is); from open the breaker becomes
  half-open exactly when \<open>c\<close> is a \<^verbatim>\<open>can_execute\<close> at a time more than
  \<open>timeout_seconds\<close> after the recorded last failure, and that call resets both counters
  and returns true; from half-open the breaker closes exactly when \<open>c\<close> is a
  \<^verbatim>\<open>record_success\<close>, which resets both counters. The only other change of state is
  half-open back to open (by \<^verbatim>\<open>record_failure\<close> under the same ratio rule).
\<close>

theorem circuit_breaker_transitions:
  "let b = cb_run (CircuitBreaker_init thr tmo) calls;
       b' = snd (cb_step b c)
   in (state b = Closed \<longrightarrow>
         (state b' = Open \<longleftrightarrow>
            (\<exists>now. c = RecordFailure now) \<and> 0 < failure_count b' + success_count b' \<and>
            threshold b < failure_ratio b'))
    \<and> ((\<exists>now. c = RecordFailure now) \<longrightarrow> 0 < failure_count b' + success_count b')
    \<and> (failure_count b0 + 1 + success_count b0 = 0 \<longrightarrow>
         state (record_failure b0 t) = state b0)
    \<and> (state b = Open \<longrightarrow>
         (state b' = HalfOpen \<longleftrightarrow> (\<exists>now. c = CanExecute now \<and> timed_out b now)))
    \<and> (state b = Open \<and> state b' = HalfOpen \<longrightarrow>
         failure_count b' = 0 \<and> success_count b' = 0 \<and> fst (cb_step b c) = Some True)
    \<and> (state b = HalfOpen \<longrightarrow> (state b' = Closed \<longleftrightarrow> c = RecordSuccess))
    \<and> (state b = HalfOpen \<and> state b' = Closed \<longrightarrow>
         failure_count b' = 0 \<and> success_count b' = 0)
    \<and> (state b \<noteq> state b' \<longrightarrow>
         (state b, state b') \<in>
           {(Closed, Open), (Open, HalfOpen), (HalfOpen, Closed), (HalfOpen, Open)})"
proof -
  define b where "b = cb_run (CircuitBreaker_init thr tmo) calls"
  have nn: "0 \<le> failure_count b" "0 \<le> success_count b"
    using cb_reachable_counts_nonneg [of thr tmo calls] by (simp_all add: b_def)
  have z: "failure_count b0 + 1 + success_count b0 = 0 \<longrightarrow>
           state (record_failure b0 t) = state b0"
    by (simp add: record_failure_state record_failure_fields)
  have "?thesis" if "c = RecordSuccess"
    using that z
    by (cases "state b")
       (simp_all add: b_def [symmetric] Let_def record_success_state record_success_fields)
  moreover have "?thesis" if "c = RecordFailure now" for now
    using that nn z
    by (cases "state b")
       (simp_all add: b_def [symmetric] Let_def record_failure_state record_failure_fields)
  moreover have "?thesis" if "c = CanExecute now" for now
    using that z
    by (cases "state b") (simp_all add: b_def [symmetric] Let_def can_execute_cases)
  ultimately show ?thesis by (cases c) blast+
qed

theorem circuit_breaker_transitions_witness:
  "(let b = cb_run (CircuitBreaker_init 0.5 60) [];
        b' = snd (cb_step b (RecordFailure 1))
    in state b = Closed \<and> state b' = Open \<and> 0 < failure_count b' + success_count b' \<and>
       threshold b < failure_ratio b')
   \<and> (let b = cb_run (CircuitBreaker_init 0.5 60) [RecordFailure 1];
           b' = snd (cb_step b (CanExecute 100))
       in state b = Open \<and> state b' = HalfOpen \<and> timed_out b 100 \<and>
          failure_count b' = 0 \<and> success_count b' = 0 \<and>
          fst (cb_step b (CanExecute 100)) = Some True)
   \<and> (let b = cb_run (CircuitBreaker_init 0.5 60) [RecordFailure 1, CanExecute 100];
           b' = snd (cb_step b RecordSuccess)
       in state b = HalfOpen \<and> state b' = Closed \<and>
          failure_count b' = 0 \<and> success_count b' = 0)
   \<and> (let b0 = (CircuitBreaker_init 0.5 60)\<lparr>failure_count := - 1\<rparr>
       in failure_count b0 + 1 + success_count b0 = 0 \<and>
          state (record_failure b0 5) = state b0)"
  using
    circuit_breaker_transitions
      [of "0.5" 60 "[]" "RecordFailure 1" "(CircuitBreaker_init 0.5 60)\<lparr>failure_count := - 1\<rparr>" 5]
    circuit_breaker_transitions
      [of "0.5" 60 "[RecordFailure 1]" "CanExecute 100" "CircuitBreaker_init 0.5 60" 0]
    circuit_breaker_transitions
      [of "0.5" 60 "[RecordFailure 1, CanExecute 100]" RecordSuccess "CircuitBreaker_init 0.5 60" 0]
  by (simp add: Let_def CircuitBreaker_init_def record_failure_def record_success_def
        can_execute_def timed_out_def failure_ratio_def)

section \<open>Load balancer selection\<close>

lemma min_by_mem: "min_by key best xs \<in> set (best # xs)"
  by (induction xs arbitrary: best) auto

lemma weighted_walk_mem: "weighted_walk xs r acc = Some i \<Longrightarrow> i \<in> set xs"
  by (induction xs arbitrary: acc) (auto simp: Let_def split: if_splits)

lemma round_robin_index_bound:
  "xs \<noteq> [] \<Longrightarrow> nat (c mod int (length xs)) < length xs"
  by (simp add: nat_less_iff)

lemma if_chain_mem:
  "x1 \<in> S \<Longrightarrow> x2 \<in> S \<Longrightarrow> x3 \<in> S \<Longrightarrow> x4 \<in> S \<Longrightarrow>
   (if a then x1 else if b then x2 else if c then (if d then x4 else x3) else x4) \<in> S"
  by simp

lemma select_instance_Cons:
  assumes "filter is_healthy instances = h # hs"
  shows "\<exists>x \<in> set (h # hs). fst (select_instance lb instances r) = Some x"
proof -
  have idx: "(h # hs) ! nat (current_index lb mod int (length (h # hs))) \<in> set (h # hs)"
    by (rule nth_mem, rule round_robin_index_bound) simp
  have mb: "min_by max_connections h hs \<in> set (h # hs)"
    by (rule min_by_mem)
  have lst: "last (h # hs) \<in> set (h # hs)"
    by (rule last_in_set) simp
  have ww: "(case weighted_walk (h # hs) r 0 of Some i \<Rightarrow> i | None \<Rightarrow> last (h # hs)) \<in> set (h # hs)"
    using lst weighted_walk_mem [of "h # hs" r 0] by (cases "weighted_walk (h # hs) r 0") auto
  have hd: "h \<in> set (h # hs)" by simp
  have eq: "fst (select_instance lb instances r) =
        Some (if strategy lb = ''round_robin''
              then (h # hs) ! nat (current_index lb mod int (length (h # hs)))
              else if strategy lb = ''least_connections'' then min_by max_connections h hs
              else if strategy lb = ''weighted''
              then (if sum_list (map weight (h # hs)) = 0 then h
                    else (case weighted_walk (h # hs) r 0 of Some i \<Rightarrow> i | None \<Rightarrow> last (h # hs)))
              else h)"
    unfolding select_instance_def assms Let_def
    by (simp split: option.splits del: weighted_walk.simps)
  show ?thesis
    unfolding eq by (rule bexI [OF refl if_chain_mem [OF idx mb ww hd]])
qed

lemma select_instance_Nil:
  "filter is_healthy instances = [] \<Longrightarrow> select_instance lb instances r = (None, lb)"
  by (simp add: select_instance_def)

text \<open>
  Claim C9. For every instance list, every balancer (any strategy string, any counter) and
  every draw, \<^verbatim>\<open>select_instance\<close> returns \<^verbatim>\<open>None\<close> if and only if no instance of the
  list has \<open>is_healthy\<close> set, and an instance it returns is a member of the list with
  \<open>is_healthy\<close> set.
\<close>

theorem select_instance_none_iff_no_healthy:
  "(fst (select_instance lb instances r) = None \<longleftrightarrow> (\<forall>i \<in> set instances. \<not> is_healthy i))
   \<and> (\<forall>i. fst (select_instance lb instances r) = Some i \<longrightarrow> i \<in> set instances \<and> is_healthy i)"
proof (cases "filter is_healthy instances")
  case Nil
  then have "\<forall>i \<in> set instances. \<not> is_healthy i" by (simp add: filter_empty_conv)
  with select_instance_Nil [OF Nil, of lb r] show ?thesis by simp
next
  case (Cons h hs)
  from select_instance_Cons [OF Cons, of lb r]
  obtain x where x: "x \<in> set (h # hs)" "fst (select_instance lb instances r) = Some x" by blast
  from x(1) have "x \<in> set (filter is_healthy instances)" by (simp only: Cons)
  then have "x \<in> set instances \<and> is_healthy x" by simp
  with x(2) show ?thesis by auto
qed

theorem select_instance_none_iff_no_healthy_witness:
  "fst (select_instance \<lparr>strategy = ''least_connections'', current_index = 0\<rparr>
          [(default_instance ''a'' 8001)\<lparr>is_healthy := False\<rparr>] 0) = None
   \<and> \<not> is_healthy ((default_instance ''a'' 8001)\<lparr>is_healthy := False\<rparr>)
   \<and> fst (select_instance \<lparr>strategy = ''least_connections'', current_index = 0\<rparr>
          [(default_instance ''a'' 8001)\<lparr>is_healthy := False\<rparr>,
           default_instance ''b'' 8002,
           (default_instance ''c'' 8003)\<lparr>max_connections := 10\<rparr>] 0)
       = Some ((default_instance ''c'' 8003)\<lparr>max_connections := 10\<rparr>)
   \<and> is_healthy ((default_instance ''c'' 8003)\<lparr>max_connections := 10\<rparr>)"
  using
    select_instance_none_iff_no_healthy
      [of "\<lparr>strategy = ''least_connections'', current_index = 0\<rparr>"
          "[(default_instance ''a'' 8001)\<lparr>is_healthy := False\<rparr>]" 0]
    select_instance_none_iff_no_healthy
      [of "\<lparr>strategy = ''least_connections'', current_index = 0\<rparr>"
          "[(default_instance ''a'' 8001)\<lparr>is_healthy := False\<rparr>,
            default_instance ''b'' 8002,
            (default_instance ''c'' 8003)\<lparr>max_connections := 10\<rparr>]" 0]
  by (simp add: select_instance_def default_instance_def Let_def)

lemma select_instance_round_robin:
  assumes "strategy lb = ''round_robin''" "filter is_healthy instances \<noteq> []"
  shows "select_instance lb instances r =
           (Some (filter is_healthy instances !
                    nat (current_index lb mod int (length (filter is_healthy instances)))),
            lb\<lparr>current_index := current_index lb + 1\<rparr>)"
  using assms by (cases "filter is_healthy instances") (simp_all add: select_instance_def Let_def)

lemma select_many_round_robin:
  assumes "strategy lb = ''round_robin''" "filter is_healthy instances \<noteq> []"
  shows "select_many lb instances rs =
           (map (\<lambda>k. Some (filter is_healthy instances !
                    nat ((current_index lb + int k) mod int (length (filter is_healthy instances)))))
              [0..<length rs],
            lb\<lparr>current_index := current_index lb + int (length rs)\<rparr>)"
  using assms(1)
proof (induction rs arbitrary: lb)
  case Nil
  then show ?case by simp
next
  case (Cons r rs)
  let ?lb = "lb\<lparr>current_index := current_index lb + 1\<rparr>"
  have s: "strategy ?lb = ''round_robin''" using Cons.prems by simp
  have shift: "map f [0..<Suc n] = f 0 # map (\<lambda>k. f (Suc k)) [0..<n]" for f :: "nat \<Rightarrow> 'b" and n
    by (simp add: upt_conv_Cons map_Suc_upt [symmetric] del: upt_Suc)
  show ?case
    using Cons.IH [OF s] select_instance_round_robin [OF Cons.prems assms(2), of r]
    by (simp add: shift ac_simps del: upt_Suc)
qed

lemma rotation_inj:
  assumes "0 < K"
  shows "inj_on (\<lambda>k. nat ((c + int k) mod int K)) {0..<K}"
proof (rule inj_onI)
  fix x y assume x: "x \<in> {0..<K}" and y: "y \<in> {0..<K}"
    and e: "nat ((c + int x) mod int K) = nat ((c + int y) mod int K)"
  from assms have "0 \<le> (c + int x) mod int K" "0 \<le> (c + int y) mod int K" by simp_all
  with e have "(c + int x) mod int K = (c + int y) mod int K" by linarith
  then have "int x mod int K = int y mod int K"
    by (metis add_diff_cancel_left' mod_diff_cong)
  with x y show "x = y" by simp
qed

lemma rotation_mset:
  assumes "0 < K"
  shows "mset (map (\<lambda>k. nat ((c + int k) mod int K)) [0..<K]) = mset [0..<K]"
proof -
  let ?f = "\<lambda>k. nat ((c + int k) mod int K)"
  have sub: "?f ` {0..<K} \<subseteq> {0..<K}"
    using assms by (auto simp: nat_less_iff)
  have "card (?f ` {0..<K}) = card {0..<K}"
    by (rule card_image) (rule rotation_inj [OF assms])
  with sub have img: "?f ` {0..<K} = {0..<K}"
    by (simp add: card_subset_eq)
  have "mset (map ?f [0..<K]) = image_mset ?f (mset_set {0..<K})"
    by (simp del: mset_upt add: mset_upt [symmetric])
  also have "\<dots> = mset_set (?f ` {0..<K})"
    by (rule image_mset_mset_set) (rule rotation_inj [OF assms])
  finally show ?thesis by (simp add: img)
qed

lemma nth_rotation_mset:
  assumes "xs \<noteq> []"
  shows "mset (map (\<lambda>k. xs ! nat ((c + int k) mod int (length xs))) [0..<length xs]) = mset xs"
proof -
  let ?f = "\<lambda>k. nat ((c + int k) mod int (length xs))"
  from assms have K: "0 < length xs" by simp
  have "mset (map (\<lambda>k. xs ! ?f k) [0..<length xs]) =
        image_mset ((!) xs) (mset (map ?f [0..<length xs]))"
    by (simp add: multiset.map_comp comp_def del: mset_upt)
  also have "\<dots> = image_mset ((!) xs) (mset [0..<length xs])"
    by (simp only: rotation_mset [OF K])
  also have "\<dots> = mset (map ((!) xs) [0..<length xs])"
    by simp
  also have "\<dots> = mset xs"
    by (simp only: map_nth)
  finally show ?thesis .
qed

text \<open>
  Claim C7. For a round-robin balancer with any value of the counter and an instance list
  whose healthy instances are \<open>healthy\<close>, of size \<open>K > 0\<close>: \<open>K\<close> consecutive
  \<^verbatim>\<open>select_instance\<close> calls on that list return each of the \<open>K\<close> healthy instances exactly
  once (the returned instances are a permutation of \<open>healthy\<close>) and advance the counter by
  \<open>K\<close>; one call returns the instance at index \<open>counter mod K\<close> and increments the
  counter by exactly 1.
\<close>

theorem round_robin_each_once:
  assumes "strategy lb = ''round_robin''"
    and "filter is_healthy instances = healthy"
    and "healthy \<noteq> []"
    and "length rs = length healthy"
  shows "mset (fst (select_many lb instances rs)) = mset (map Some healthy)
    \<and> current_index (snd (select_many lb instances rs)) = current_index lb + int (length healthy)
    \<and> select_instance lb instances r =
         (Some (healthy ! nat (current_index lb mod int (length healthy))),
          lb\<lparr>current_index := current_index lb + 1\<rparr>)"
proof -
  have ne: "filter is_healthy instances \<noteq> []" using assms(2,3) by simp
  have "mset (fst (select_many lb instances rs)) =
        image_mset Some (mset (map (\<lambda>k. healthy ! nat ((current_index lb + int k) mod int (length healthy)))
           [0..<length healthy]))"
    using select_many_round_robin [OF assms(1) ne, of rs] assms(2,4)
    by (simp add: multiset.map_comp comp_def del: mset_upt)
  also have "\<dots> = image_mset Some (mset healthy)"
    by (simp only: nth_rotation_mset [OF assms(3)])
  finally have a: "mset (fst (select_many lb instances rs)) = mset (map Some healthy)" by simp
  have b: "current_index (snd (select_many lb instances rs)) = current_index lb + int (length healthy)"
    using select_many_round_robin [OF assms(1) ne, of rs] assms(4) by simp
  have c: "select_instance lb instances r =
         (Some (healthy ! nat (current_index lb mod int (length healthy))),
          lb\<lparr>current_index := current_index lb + 1\<rparr>)"
    using select_instance_round_robin [OF assms(1) ne, of r] assms(2) by simp
  from a b c show ?thesis by blast
qed

theorem round_robin_each_once_witness:
  "fst (select_many \<lparr>strategy = ''round_robin'', current_index = 5\<rparr>
          [default_instance ''a'' 8001, (default_instance ''c'' 8003)\<lparr>is_healthy := False\<rparr>,
           default_instance ''b'' 8002] [0, 0])
     = [Some (default_instance ''b'' 8002), Some (default_instance ''a'' 8001)]
   \<and> mset [Some (default_instance ''b'' 8002), Some (default_instance ''a'' 8001)]
     = mset (map Some [default_instance ''a'' 8001, default_instance ''b'' 8002])
   \<and> current_index (snd (select_many \<lparr>strategy = ''round_robin'', current_index = 5\<rparr>
          [default_instance ''a'' 8001, (default_instance ''c'' 8003)\<lparr>is_healthy := False\<rparr>,
           default_instance ''b'' 8002] [0, 0])) = 7"
  using
    round_robin_each_once
      [of "\<lparr>strategy = ''round_robin'', current_index = 5\<rparr>"
          "[default_instance ''a'' 8001, (default_instance ''c'' 8003)\<lparr>is_healthy := False\<rparr>,
            default_instance ''b'' 8002]"
          "[default_instance ''a'' 8001, default_instance ''b'' 8002]" "[0, 0]" 0]
  by (simp add: select_instance_def default_instance_def Let_def)

lemma cumulative_weight_Cons:
  "cumulative_weight (x # xs) 0 = weight x"
  "cumulative_weight (x # xs) (Suc k) = weight x + cumulative_weight xs k"
  by (simp_all add: cumulative_weight_def)

lemma weighted_walk_Some:
  "weighted_walk xs r acc = Some i \<Longrightarrow>
   \<exists>k < length xs. i = xs ! k \<and> r \<le> real_of_int (acc + cumulative_weight xs k) \<and>
     (\<forall>j < k. real_of_int (acc + cumulative_weight xs j) < r)"
proof (induction xs arbitrary: acc)
  case Nil
  then show ?case by simp
next
  case (Cons x xs)
  show ?case
  proof (cases "r \<le> real_of_int (acc + weight x)")
    case True
    with Cons.prems have "i = x" by (simp add: Let_def)
    with True show ?thesis
      by (intro exI [of _ 0]) (simp add: cumulative_weight_Cons)
  next
    case False
    with Cons.prems have "weighted_walk xs r (acc + weight x) = Some i" by (simp add: Let_def)
    from Cons.IH [OF this] obtain k where k: "k < length xs" "i = xs ! k"
      "r \<le> real_of_int (acc + weight x + cumulative_weight xs k)"
      "\<forall>j < k. real_of_int (acc + weight x + cumulative_weight xs j) < r" by blast
    have "real_of_int (acc + cumulative_weight (x # xs) j) < r" if "j < Suc k" for j
    proof (cases j)
      case 0
      with False show ?thesis by (simp add: cumulative_weight_Cons)
    next
      case (Suc j')
      with that k(4) show ?thesis by (simp add: cumulative_weight_Cons add.assoc)
    qed
    with k(1,2,3) show ?thesis
      by (intro exI [of _ "Suc k"]) (simp add: cumulative_weight_Cons add.assoc)
  qed
qed

lemma weighted_walk_None:
  "weighted_walk xs r acc = None \<Longrightarrow> xs \<noteq> [] \<Longrightarrow>
   real_of_int (acc + sum_list (map weight xs)) < r"
proof (induction xs arbitrary: acc)
  case Nil
  then show ?case by simp
next
  case (Cons x xs)
  from Cons.prems(1) have nle: "\<not> r \<le> real_of_int (acc + weight x)"
    and rest: "weighted_walk xs r (acc + weight x) = None"
    by (simp_all add: Let_def split: if_splits)
  show ?case
  proof (cases xs)
    case Nil
    with nle show ?thesis by simp
  next
    case (Cons y ys)
    then have "xs \<noteq> []" by simp
    from Cons.IH [OF rest this] show ?thesis by (simp add: add.assoc)
  qed
qed

lemma select_instance_weighted:
  assumes "strategy lb = ''weighted''" "filter is_healthy instances = healthy" "healthy \<noteq> []"
  shows "select_instance lb instances r =
     (if sum_list (map weight healthy) = 0 then (Some (hd healthy), lb)
      else (case weighted_walk healthy r 0 of
              Some i \<Rightarrow> (Some i, lb)
            | None \<Rightarrow> (Some (last healthy), lb)))"
  using assms
  by (cases healthy)
     (simp_all add: select_instance_def Let_def del: weighted_walk.simps cong: option.case_cong)

text \<open>
  Claim C5, as amended. Weighted selection over a non-empty healthy set: when the total
  weight is 0 the first healthy instance is returned; otherwise, for every draw \<open>r\<close> up to
  the total weight, the instance returned is the first one in insertion order whose cumulative
  weight meets or exceeds \<open>r\<close>, and for every such draw with \<open>0 < r\<close> the instance
  returned has a positive weight, so an instance of weight 0 is not selected.
\<close>

theorem weighted_selection:
  assumes "strategy lb = ''weighted''"
    and "filter is_healthy instances = healthy"
    and "healthy \<noteq> []"
  shows "(sum_list (map weight healthy) = 0 \<longrightarrow>
            select_instance lb instances r = (Some (hd healthy), lb))
    \<and> (sum_list (map weight healthy) \<noteq> 0 \<and> r \<le> real_of_int (sum_list (map weight healthy)) \<longrightarrow>
         (\<exists>k < length healthy.
            select_instance lb instances r = (Some (healthy ! k), lb) \<and>
            r \<le> real_of_int (cumulative_weight healthy k) \<and>
            (\<forall>j < k. real_of_int (cumulative_weight healthy j) < r) \<and>
            (0 < r \<longrightarrow> 0 < weight (healthy ! k))))"
proof (intro conjI impI)
  assume "sum_list (map weight healthy) = 0"
  then show "select_instance lb instances r = (Some (hd healthy), lb)"
    by (simp add: select_instance_weighted [OF assms])
next
  assume a: "sum_list (map weight healthy) \<noteq> 0 \<and> r \<le> real_of_int (sum_list (map weight healthy))"
  have "weighted_walk healthy r 0 \<noteq> None"
    using weighted_walk_None [of healthy r 0] assms(3) a by auto
  then obtain i where i: "weighted_walk healthy r 0 = Some i" by blast
  from weighted_walk_Some [OF i] obtain k where k: "k < length healthy" "i = healthy ! k"
    "r \<le> real_of_int (cumulative_weight healthy k)"
    "\<forall>j < k. real_of_int (cumulative_weight healthy j) < r" by auto
  have sel: "select_instance lb instances r = (Some (healthy ! k), lb)"
    using a i k(2) by (simp add: select_instance_weighted [OF assms])
  have pos: "0 < weight (healthy ! k)" if "0 < r"
  proof (cases k)
    case 0
    have "cumulative_weight healthy 0 = weight (healthy ! 0)"
      using assms(3) by (cases healthy) (simp_all add: cumulative_weight_Cons)
    with k(3) that 0 show ?thesis by simp
  next
    case (Suc k')
    have "cumulative_weight healthy (Suc k') = cumulative_weight healthy k' + weight (healthy ! Suc k')"
      using k(1) Suc by (simp add: cumulative_weight_def take_Suc_conv_app_nth)
    moreover have "real_of_int (cumulative_weight healthy k') < r" using k(4) Suc by simp
    ultimately show ?thesis using k(3) Suc by simp
  qed
  from k(1) sel k(3,4) pos
  show "\<exists>k < length healthy.
            select_instance lb instances r = (Some (healthy ! k), lb) \<and>
            r \<le> real_of_int (cumulative_weight healthy k) \<and>
            (\<forall>j < k. real_of_int (cumulative_weight healthy j) < r) \<and>
            (0 < r \<longrightarrow> 0 < weight (healthy ! k))" by blast
qed

text \<open>
  The draw \<open>r = 0\<close> lies in \<open>[0, total_weight)\<close> and selects a first healthy instance of
  weight 0: its cumulative weight 0 meets the draw.
\<close>

theorem weighted_selection_counterexample:
  "0 \<le> (0::real)
   \<and> (0::real) < real_of_int (sum_list (map weight (filter is_healthy
        [(default_instance ''a'' 8001)\<lparr>weight := 0\<rparr>, default_instance ''b'' 8002])))
   \<and> fst (select_instance \<lparr>strategy = ''weighted'', current_index = 0\<rparr>
        [(default_instance ''a'' 8001)\<lparr>weight := 0\<rparr>, default_instance ''b'' 8002] 0)
       = Some ((default_instance ''a'' 8001)\<lparr>weight := 0\<rparr>)
   \<and> weight ((default_instance ''a'' 8001)\<lparr>weight := 0\<rparr>) = 0"
  by (simp add: select_instance_def default_instance_def Let_def)

theorem weighted_selection_witness:
  "select_instance \<lparr>strategy = ''weighted'', current_index = 0\<rparr>
      [(default_instance ''a'' 8001)\<lparr>weight := 0, is_healthy := True\<rparr>,
       (default_instance ''b'' 8002)\<lparr>weight := 0, is_healthy := True\<rparr>] 7
     = (Some ((default_instance ''a'' 8001)\<lparr>weight := 0, is_healthy := True\<rparr>),
        \<lparr>strategy = ''weighted'', current_index = 0\<rparr>)
   \<and> fst (select_instance \<lparr>strategy = ''weighted'', current_index = 0\<rparr>
      [(default_instance ''a'' 8001)\<lparr>weight := 0\<rparr>, (default_instance ''c'' 8003)\<lparr>is_healthy := False\<rparr>,
       (default_instance ''b'' 8002)\<lparr>weight := 3\<rparr>] (1/2))
     = Some ((default_instance ''b'' 8002)\<lparr>weight := 3\<rparr>)"
  using
    weighted_selection [of "\<lparr>strategy = ''weighted'', current_index = 0\<rparr>"
      "[(default_instance ''a'' 8001)\<lparr>weight := 0, is_healthy := True\<rparr>,
        (default_instance ''b'' 8002)\<lparr>weight := 0, is_healthy := True\<rparr>]"
      "[(default_instance ''a'' 8001)\<lparr>weight := 0, is_healthy := True\<rparr>,
        (default_instance ''b'' 8002)\<lparr>weight := 0, is_healthy := True\<rparr>]" 7]
    weighted_selection [of "\<lparr>strategy = ''weighted'', current_index = 0\<rparr>"
      "[(default_instance ''a'' 8001)\<lparr>weight := 0\<rparr>, (default_instance ''c'' 8003)\<lparr>is_healthy := False\<rparr>,
        (default_instance ''b'' 8002)\<lparr>weight := 3\<rparr>]"
      "[(default_instance ''a'' 8001)\<lparr>weight := 0\<rparr>, (default_instance ''b'' 8002)\<lparr>weight := 3\<rparr>]" "1/2"]
  by (simp add: default_instance_def select_instance_def Let_def)

section \<open>Rate limiter\<close>

lemma is_allowed_config [simp]: "config (snd (is_allowed rl c now)) = config rl"
  by (simp add: is_allowed_def Let_def)

lemma is_allowed_bucket_same:
  "bucket_of (snd (is_allowed rl c now)) c =
     (if fst (is_allowed rl c now) then prune rl c now @ [now] else prune rl c now)"
  by (simp add: is_allowed_def Let_def bucket_of_def)

lemma is_allowed_bucket_other:
  "c' \<noteq> c \<Longrightarrow> bucket_of (snd (is_allowed rl c now)) c' = bucket_of rl c'"
  by (simp add: is_allowed_def Let_def bucket_of_def)

lemma is_allowed_fst:
  "fst (is_allowed rl c now) \<longleftrightarrow> int (length (prune rl c now)) < requests_per_window (config rl)"
  by (simp add: is_allowed_def Let_def)

lemma is_allowed_dom: "dom (buckets (snd (is_allowed rl c now))) = insert c (dom (buckets rl))"
  by (simp add: is_allowed_def Let_def)

lemma is_allowed_seq_Cons:
  "is_allowed_seq rl ((c, now) # cs) =
     (fst (is_allowed rl c now) # fst (is_allowed_seq (snd (is_allowed rl c now)) cs),
      snd (is_allowed_seq (snd (is_allowed rl c now)) cs))"
  by (simp add: case_prod_beta)

lemma is_allowed_seq_append:
  "is_allowed_seq rl (xs @ ys) =
     (fst (is_allowed_seq rl xs) @ fst (is_allowed_seq (snd (is_allowed_seq rl xs)) ys),
      snd (is_allowed_seq (snd (is_allowed_seq rl xs)) ys))"
proof (induction xs arbitrary: rl)
  case Nil
  then show ?case by simp
next
  case (Cons x xs)
  obtain c now where x: "x = (c, now)" by (cases x)
  show ?case
    unfolding x append_Cons is_allowed_seq_Cons by (simp add: Cons.IH)
qed

lemma is_allowed_seq_config [simp]: "config (snd (is_allowed_seq rl cs)) = config rl"
proof (induction cs arbitrary: rl)
  case Nil
  then show ?case by simp
next
  case (Cons x cs)
  obtain c now where x: "x = (c, now)" by (cases x)
  have "config (snd (is_allowed_seq (snd (is_allowed rl c now)) cs)) = config rl"
    by (simp add: Cons.IH)
  then show ?case unfolding x is_allowed_seq_Cons by simp
qed

lemma is_allowed_seq_dom:
  "dom (buckets (snd (is_allowed_seq rl cs))) = dom (buckets rl) \<union> fst ` set cs"
proof (induction cs arbitrary: rl)
  case Nil
  then show ?case by simp
next
  case (Cons x cs)
  obtain c now where x: "x = (c, now)" by (cases x)
  have "dom (buckets (snd (is_allowed_seq (snd (is_allowed rl c now)) cs))) =
        insert c (dom (buckets rl)) \<union> fst ` set cs"
    by (simp add: Cons.IH is_allowed_dom)
  then show ?case unfolding x is_allowed_seq_Cons by simp
qed

text \<open>All entries of a client's bucket and all coming calls lie within one window.\<close>

lemma prune_all_recent:
  "\<forall>ts \<in> set (bucket_of rl c). now - ts < real_of_int (window_size_seconds (config rl)) \<Longrightarrow>
   prune rl c now = bucket_of rl c"
  by (simp add: prune_def)

lemma prune_all_expired:
  "\<forall>ts \<in> set (bucket_of rl c). \<not> now - ts < real_of_int (window_size_seconds (config rl)) \<Longrightarrow>
   prune rl c now = []"
  by (simp add: prune_def)

lemma admitted_run:
  assumes "int (length (bucket_of rl c) + length tms) \<le> requests_per_window (config rl)"
    and "\<forall>t \<in> set (bucket_of rl c) \<union> set tms. \<forall>t' \<in> set tms.
           t' - t < real_of_int (window_size_seconds (config rl))"
  shows "fst (is_allowed_seq rl (map (Pair c) tms)) = replicate (length tms) True
    \<and> (tms \<noteq> [] \<longrightarrow> bucket_of (snd (is_allowed_seq rl (map (Pair c) tms))) c = bucket_of rl c @ tms)"
  using assms
proof (induction tms arbitrary: rl)
  case Nil
  then show ?case by simp
next
  case (Cons t tms)
  let ?rl = "snd (is_allowed rl c t)"
  have pr: "prune rl c t = bucket_of rl c"
    using Cons.prems(2) by (intro prune_all_recent) simp
  have ok: "fst (is_allowed rl c t)"
    using Cons.prems(1) by (simp add: is_allowed_fst pr)
  have b: "bucket_of ?rl c = bucket_of rl c @ [t]"
    by (simp add: is_allowed_bucket_same ok pr)
  have 1: "int (length (bucket_of ?rl c) + length tms) \<le> requests_per_window (config ?rl)"
    using Cons.prems(1) by (simp add: b)
  have 2: "\<forall>ta \<in> set (bucket_of ?rl c) \<union> set tms. \<forall>t' \<in> set tms.
           t' - ta < real_of_int (window_size_seconds (config ?rl))"
    using Cons.prems(2) by (simp add: b)
  from Cons.IH [OF 1 2] have ih:
    "fst (is_allowed_seq ?rl (map (Pair c) tms)) = replicate (length tms) True"
    "tms \<noteq> [] \<longrightarrow> bucket_of (snd (is_allowed_seq ?rl (map (Pair c) tms))) c = bucket_of ?rl c @ tms"
    by simp_all
  have r: "fst (is_allowed_seq rl (map (Pair c) (t # tms))) =
           fst (is_allowed rl c t) # fst (is_allowed_seq ?rl (map (Pair c) tms))"
    by (simp add: is_allowed_seq_Cons del: is_allowed_seq.simps)
  have s: "snd (is_allowed_seq rl (map (Pair c) (t # tms))) =
           snd (is_allowed_seq ?rl (map (Pair c) tms))"
    by (simp add: is_allowed_seq_Cons del: is_allowed_seq.simps)
  show ?case
    unfolding r s using ok ih b by (cases tms) simp_all
qed

lemma first_call_forgets:
  assumes "\<forall>ts \<in> set (bucket_of rl c). \<not> now - ts < real_of_int (window_size_seconds (config rl))"
  shows "is_allowed rl c now = is_allowed (rl\<lparr>buckets := (buckets rl)(c \<mapsto> [])\<rparr>) c now"
proof -
  have "prune rl c now = []" using assms by (rule prune_all_expired)
  moreover have "prune (rl\<lparr>buckets := (buckets rl)(c \<mapsto> [])\<rparr>) c now = []"
    by (simp add: prune_def bucket_of_def)
  ultimately show ?thesis by (simp add: is_allowed_def Let_def)
qed

lemma quota_run:
  assumes quota: "requests_per_window (config rl) = int N"
    and len: "length tms = N + 1"
    and within: "\<forall>t \<in> set tms. \<forall>t' \<in> set tms.
                   t' - t < real_of_int (window_size_seconds (config rl))"
    and expired: "\<forall>ts \<in> set (bucket_of rl c).
                   \<not> hd tms - ts < real_of_int (window_size_seconds (config rl))"
  shows "fst (is_allowed_seq rl (map (Pair c) tms)) = replicate N True @ [False]"
    and "bucket_of (snd (is_allowed_seq rl (map (Pair c) tms))) c = butlast tms"
proof -
  let ?rl0 = "rl\<lparr>buckets := (buckets rl)(c \<mapsto> [])\<rparr>"
  let ?A = "butlast tms"
  let ?tl = "last tms"
  from len have ne: "tms \<noteq> []" by auto
  then obtain t1 rest where tms: "tms = t1 # rest" by (cases tms) auto
  have "is_allowed rl c t1 = is_allowed ?rl0 c t1"
    using expired by (intro first_call_forgets) (simp add: tms)
  then have same: "is_allowed_seq rl (map (Pair c) tms) = is_allowed_seq ?rl0 (map (Pair c) tms)"
    by (simp add: tms is_allowed_seq_Cons del: is_allowed_seq.simps)
  have split: "map (Pair c) tms = map (Pair c) ?A @ [(c, ?tl)]"
    using ne by (metis append_butlast_last_id list.simps(8,9) map_append)
  have subA: "set ?A \<subseteq> set tms" by (auto dest: in_set_butlastD)
  have b0: "bucket_of ?rl0 c = []" by (simp add: bucket_of_def)
  let ?rl1 = "snd (is_allowed_seq ?rl0 (map (Pair c) ?A))"
  have run: "fst (is_allowed_seq ?rl0 (map (Pair c) ?A)) = replicate (length ?A) True
    \<and> (?A \<noteq> [] \<longrightarrow> bucket_of ?rl1 c = bucket_of ?rl0 c @ ?A)"
  proof (rule admitted_run)
    show "int (length (bucket_of ?rl0 c) + length ?A) \<le> requests_per_window (config ?rl0)"
      using len by (simp add: b0 quota)
    show "\<forall>t \<in> set (bucket_of ?rl0 c) \<union> set ?A. \<forall>t' \<in> set ?A.
            t' - t < real_of_int (window_size_seconds (config ?rl0))"
      using within subA by (auto simp: b0)
  qed
  have b1: "bucket_of ?rl1 c = ?A"
  proof (cases "?A = []")
    case True
    then show ?thesis by (simp add: b0)
  next
    case False
    with run show ?thesis by (simp add: b0)
  qed
  have cfg1: "config ?rl1 = config rl" by simp
  have "?tl \<in> set tms" using ne by simp
  with within subA have "\<forall>ts \<in> set ?A. ?tl - ts < real_of_int (window_size_seconds (config rl))"
    by blast
  then have pr: "prune ?rl1 c ?tl = ?A"
    by (intro prune_all_recent [THEN trans]) (simp_all add: b1)
  have deny: "\<not> fst (is_allowed ?rl1 c ?tl)"
    using len by (simp add: is_allowed_fst pr quota)
  have "fst (is_allowed_seq ?rl0 (map (Pair c) tms)) = replicate N True @ [False]"
    unfolding split is_allowed_seq_append
    using run deny len by (simp add: is_allowed_seq_Cons del: is_allowed_seq.simps(2))
  with same show "fst (is_allowed_seq rl (map (Pair c) tms)) = replicate N True @ [False]"
    by simp
  have "bucket_of (snd (is_allowed_seq ?rl0 (map (Pair c) tms))) c = ?A"
    unfolding split is_allowed_seq_append
    using deny pr
    by (simp add: is_allowed_seq_Cons is_allowed_bucket_same del: is_allowed_seq.simps(2))
  with same show "bucket_of (snd (is_allowed_seq rl (map (Pair c) tms))) c = butlast tms"
    by simp
qed

text \<open>
  Claim C3. A limiter with quota \<open>N\<close> and window \<open>W\<close>, a client \<open>c\<close> whose stored
  timestamps (if any) are no longer within the window at the first call, and \<open>N + 1\<close> calls
  of \<open>c\<close> at clock readings that pairwise differ by less than \<open>W\<close>: the first \<open>N\<close> calls
  are allowed and the last is denied; with \<open>N > 0\<close>, a further call at a time more than
  \<open>W\<close> after all of these is allowed again. A denied call, by any client in any limiter
  state, leaves as that client's sequence exactly the old entries that are within the window:
  no timestamp is appended.
\<close>

theorem rate_limiter_quota_window:
  assumes "requests_per_window (config rl) = int N"
    and "length tms = N + 1"
    and "\<forall>t \<in> set tms. \<forall>t' \<in> set tms.
           t' - t < real_of_int (window_size_seconds (config rl))"
    and "\<forall>ts \<in> set (bucket_of rl c).
           \<not> hd tms - ts < real_of_int (window_size_seconds (config rl))"
  shows "fst (is_allowed_seq rl (map (Pair c) tms)) = replicate N True @ [False]
    \<and> (0 < N \<and> (\<forall>t \<in> set tms. real_of_int (window_size_seconds (config rl)) < now - t) \<longrightarrow>
         fst (is_allowed (snd (is_allowed_seq rl (map (Pair c) tms))) c now))
    \<and> (\<not> fst (is_allowed rl0 c0 t0) \<longrightarrow>
         bucket_of (snd (is_allowed rl0 c0 t0)) c0 =
           filter (\<lambda>ts. t0 - ts < real_of_int (window_size_seconds (config rl0)))
             (bucket_of rl0 c0))"
proof (intro conjI impI)
  show "fst (is_allowed_seq rl (map (Pair c) tms)) = replicate N True @ [False]"
    by (rule quota_run(1) [OF assms])
next
  let ?rl2 = "snd (is_allowed_seq rl (map (Pair c) tms))"
  assume a: "0 < N \<and> (\<forall>t \<in> set tms. real_of_int (window_size_seconds (config rl)) < now - t)"
  have b: "bucket_of ?rl2 c = butlast tms" by (rule quota_run(2) [OF assms])
  have "\<forall>ts \<in> set (bucket_of ?rl2 c). \<not> now - ts < real_of_int (window_size_seconds (config ?rl2))"
    using a by (auto simp: b dest!: in_set_butlastD)
  then have "prune ?rl2 c now = []" by (rule prune_all_expired)
  then show "fst (is_allowed ?rl2 c now)"
    using a assms(1) by (simp add: is_allowed_fst)
next
  assume "\<not> fst (is_allowed rl0 c0 t0)"
  then show "bucket_of (snd (is_allowed rl0 c0 t0)) c0 =
           filter (\<lambda>ts. t0 - ts < real_of_int (window_size_seconds (config rl0)))
             (bucket_of rl0 c0)"
    by (simp add: is_allowed_bucket_same prune_def)
qed

theorem rate_limiter_quota_window_witness:
  "fst (is_allowed_seq
          (RateLimiter_init \<lparr>rl_strategy = SLIDING_WINDOW, requests_per_window = 2,
             window_size_seconds = 60, cleanup_interval_seconds = 300\<rparr>)
          (map (Pair ''k1'') [0, 10, 20])) = [True, True, False]
   \<and> fst (is_allowed
          (snd (is_allowed_seq
             (RateLimiter_init \<lparr>rl_strategy = SLIDING_WINDOW, requests_per_window = 2,
                window_size_seconds = 60, cleanup_interval_seconds = 300\<rparr>)
             (map (Pair ''k1'') [0, 10, 20]))) ''k1'' 100)
   \<and> \<not> fst (is_allowed
          \<lparr>config = \<lparr>rl_strategy = SLIDING_WINDOW, requests_per_window = 2,
                window_size_seconds = 60, cleanup_interval_seconds = 300\<rparr>,
           buckets = [''k1'' \<mapsto> [0, 65, 70]]\<rparr> ''k1'' 80)
   \<and> bucket_of (snd (is_allowed
          \<lparr>config = \<lparr>rl_strategy = SLIDING_WINDOW, requests_per_window = 2,
                window_size_seconds = 60, cleanup_interval_seconds = 300\<rparr>,
           buckets = [''k1'' \<mapsto> [0, 65, 70]]\<rparr> ''k1'' 80)) ''k1'' = [65, 70]"
  using rate_limiter_quota_window
    [of "RateLimiter_init \<lparr>rl_strategy = SLIDING_WINDOW, requests_per_window = 2,
             window_size_seconds = 60, cleanup_interval_seconds = 300\<rparr>"
        2 "[0, 10, 20]" "''k1''" 100
        "\<lparr>config = \<lparr>rl_strategy = SLIDING_WINDOW, requests_per_window = 2,
                window_size_seconds = 60, cleanup_interval_seconds = 300\<rparr>,
           buckets = [''k1'' \<mapsto> [0, 65, 70]]\<rparr>" "''k1''" 80]
  by (simp add: RateLimiter_init_def is_allowed_def prune_def bucket_of_def Let_def)

lemma is_allowed_bounded:
  assumes "\<forall>c. int (length (bucket_of rl c)) \<le> requests_per_window (config rl)"
  shows "\<forall>c. int (length (bucket_of (snd (is_allowed rl c0 now)) c))
               \<le> requests_per_window (config (snd (is_allowed rl c0 now)))"
proof
  fix c
  have le: "length (prune rl c0 now) \<le> length (bucket_of rl c0)"
    by (simp add: prune_def)
  show "int (length (bucket_of (snd (is_allowed rl c0 now)) c))
               \<le> requests_per_window (config (snd (is_allowed rl c0 now)))"
  proof (cases "c = c0")
    case True
    show ?thesis
    proof (cases "fst (is_allowed rl c0 now)")
      case True
      then have "int (length (prune rl c0 now)) < requests_per_window (config rl)"
        by (simp add: is_allowed_fst)
      with True \<open>c = c0\<close> show ?thesis by (simp add: is_allowed_bucket_same)
    next
      case False
      with \<open>c = c0\<close> le assms [rule_format, of c0] show ?thesis
        by (simp add: is_allowed_bucket_same)
    qed
  next
    case False
    with assms show ?thesis by (simp add: is_allowed_bucket_other)
  qed
qed

lemma is_allowed_seq_bounded:
  assumes "\<forall>c. int (length (bucket_of rl c)) \<le> requests_per_window (config rl)"
  shows "\<forall>c. int (length (bucket_of (snd (is_allowed_seq rl cs)) c))
               \<le> requests_per_window (config rl)"
  using assms
proof (induction cs arbitrary: rl)
  case Nil
  then show ?case by simp
next
  case (Cons x cs)
  obtain c0 now where x: "x = (c0, now)" by (cases x)
  from Cons.IH [OF is_allowed_bounded [OF Cons.prems, of c0 now]]
  show ?case unfolding x is_allowed_seq_Cons by simp
qed

text \<open>
  Claim C6, as amended. Starting from a fresh limiter with a non-negative quota, after any
  sequence of \<^verbatim>\<open>is_allowed\<close> calls every client's stored sequence has length at most the
  quota. The limiter has no operation that drops a client: after any sequence of calls, from
  any state, the clients stored are those stored before together with every caller.
\<close>

theorem rate_limiter_memory:
  "(0 \<le> requests_per_window cfg \<longrightarrow>
      (\<forall>c. int (length (bucket_of (snd (is_allowed_seq (RateLimiter_init cfg) cs)) c))
             \<le> requests_per_window cfg))
   \<and> dom (buckets (snd (is_allowed_seq rl cs))) = dom (buckets rl) \<union> fst ` set cs"
proof (intro conjI impI)
  assume nn: "0 \<le> requests_per_window cfg"
  have "\<forall>c. int (length (bucket_of (RateLimiter_init cfg) c))
           \<le> requests_per_window (config (RateLimiter_init cfg))"
    using nn by (simp add: RateLimiter_init_def bucket_of_def)
  from is_allowed_seq_bounded [OF this, of cs]
  show "\<forall>c. int (length (bucket_of (snd (is_allowed_seq (RateLimiter_init cfg) cs)) c))
             \<le> requests_per_window cfg"
    by (simp add: RateLimiter_init_def)
next
  show "dom (buckets (snd (is_allowed_seq rl cs))) = dom (buckets rl) \<union> fst ` set cs"
    by (rule is_allowed_seq_dom)
qed

theorem rate_limiter_memory_witness:
  "(0::int) \<le> 1
   \<and> int (length (bucket_of (snd (is_allowed_seq
        (RateLimiter_init \<lparr>rl_strategy = SLIDING_WINDOW, requests_per_window = 1,
           window_size_seconds = 60, cleanup_interval_seconds = 300\<rparr>)
        [(''k1'', 0), (''k1'', 1), (''k2'', 2)])) ''k1'')) \<le> 1
   \<and> dom (buckets (snd (is_allowed_seq
        (RateLimiter_init \<lparr>rl_strategy = SLIDING_WINDOW, requests_per_window = 1,
           window_size_seconds = 60, cleanup_interval_seconds = 300\<rparr>)
        [(''k1'', 0), (''k1'', 1), (''k2'', 2)]))) = {''k1'', ''k2''}"
  using rate_limiter_memory
    [of "\<lparr>rl_strategy = SLIDING_WINDOW, requests_per_window = 1,
           window_size_seconds = 60, cleanup_interval_seconds = 300\<rparr>"
        "[(''k1'', 0), (''k1'', 1), (''k2'', 2)]"
        "RateLimiter_init \<lparr>rl_strategy = SLIDING_WINDOW, requests_per_window = 1,
           window_size_seconds = 60, cleanup_interval_seconds = 300\<rparr>"]
  by (simp add: RateLimiter_init_def)

text \<open>
  A client whose only request is long out of the window, and older than
  \<open>cleanup_interval_seconds\<close>, is still stored with that timestamp after a later call by
  another client; with quota 0 a client's empty sequence is stored and stays.
\<close>

theorem rate_limiter_memory_counterexample:
  "buckets (snd (is_allowed_seq
      (RateLimiter_init \<lparr>rl_strategy = SLIDING_WINDOW, requests_per_window = 1,
         window_size_seconds = 1, cleanup_interval_seconds = 300\<rparr>)
      [(''k1'', 0), (''k2'', 1000)])) ''k1'' = Some [0]
   \<and> buckets (snd (is_allowed_seq
      (RateLimiter_init \<lparr>rl_strategy = SLIDING_WINDOW, requests_per_window = 0,
         window_size_seconds = 1, cleanup_interval_seconds = 300\<rparr>)
      [(''k1'', 0), (''k2'', 1000)])) ''k1'' = Some []"
  by (simp add: RateLimiter_init_def is_allowed_def prune_def bucket_of_def Let_def)

section \<open>Gateway metrics\<close>

lemma record_request_latencies:
  "length (requests_latency_ms m) < 10000 \<Longrightarrow>
   requests_latency_ms (record_request m success latency bi bo) = requests_latency_ms m @ [latency]"
  by (simp add: record_request_def Let_def)

lemma record_requests_latencies:
  "length (requests_latency_ms m) + length qs \<le> 10000 \<Longrightarrow>
   requests_latency_ms (record_requests m qs) = requests_latency_ms m @ map (\<lambda>q. fst (snd q)) qs"
proof (induction qs arbitrary: m)
  case Nil
  then show ?case by simp
next
  case (Cons q qs)
  obtain success latency bi bo where q: "q = (success, latency, bi, bo)" by (cases q) auto
  have 1: "requests_latency_ms (record_request m success latency bi bo) =
           requests_latency_ms m @ [latency]"
    using Cons.prems by (intro record_request_latencies) simp
  have "requests_latency_ms (record_requests (record_request m success latency bi bo) qs) =
        requests_latency_ms (record_request m success latency bi bo) @ map (\<lambda>q. fst (snd q)) qs"
    using Cons.prems by (intro Cons.IH) (simp add: 1)
  then show ?case by (simp add: q 1)
qed

lemma sum_first_hundred: "sum_list (map real [1..<101]) = 5050"
proof -
  have "sum_list (map real [1..<101]) = (\<Sum>i = 1..<101. real i)"
    by (simp add: interv_sum_list_conv_sum_set_nat)
  also have "\<dots> = real (\<Sum>i = 1..<101. i)"
    by simp
  also have "(\<Sum>i = 1..<101. i) = (5050::nat)"
    by (simp add: Sum_Ico_nat)
  finally show ?thesis by simp
qed

lemma sorted_first_hundred: "sorted (map real [1..<101])"
  by (simp only: sorted_map sorted_wrt_iff_nth_less) simp

lemma percentile_index_lt: "0 < n \<Longrightarrow> 0 \<le> q \<Longrightarrow> q < 1 \<Longrightarrow> percentile_index n q < n"
proof -
  assume n: "0 < n" and q: "0 \<le> q" "q < 1"
  have "real n * q < real n" using n q by simp
  then have "\<lfloor>real n * q\<rfloor> < int n" by (simp add: floor_less_iff)
  then show ?thesis using n unfolding percentile_index_def by linarith
qed

lemma percentile_index_hundred:
  "percentile_index 100 0.95 = 95" "percentile_index 100 0.99 = 99"
  "percentile_index 100 (19 / 20) = 95" "percentile_index 100 (99 / 100) = 99"
  by (simp_all add: percentile_index_def)

lemma hundred_latencies:
  assumes "mset (map (\<lambda>q. fst (snd q)) qs) = mset (map real [1..<101])"
  shows "requests_latency_ms (record_requests GatewayMetrics_init qs) = map (\<lambda>q. fst (snd q)) qs"
    and "length qs = 100"
    and "sum_list (map (\<lambda>q. fst (snd q)) qs) = 5050"
    and "sort (map (\<lambda>q. fst (snd q)) qs) = map real [1..<101]"
proof -
  from assms have "size (mset (map (\<lambda>q. fst (snd q)) qs)) = size (mset (map real [1..<101]))"
    by simp
  then show len: "length qs = 100" by simp
  show "requests_latency_ms (record_requests GatewayMetrics_init qs) = map (\<lambda>q. fst (snd q)) qs"
    using record_requests_latencies [of GatewayMetrics_init qs] len
    by (simp add: GatewayMetrics_init_def)
  have "sum_list (map (\<lambda>q. fst (snd q)) qs) = sum_mset (mset (map (\<lambda>q. fst (snd q)) qs))"
    by (simp only: sum_mset_sum_list)
  also have "\<dots> = sum_list (map real [1..<101])"
    by (simp only: assms sum_mset_sum_list)
  finally show "sum_list (map (\<lambda>q. fst (snd q)) qs) = 5050"
    by (simp only: sum_first_hundred)
  show "sort (map (\<lambda>q. fst (snd q)) qs) = map real [1..<101]"
    by (rule properties_for_sort [OF assms [symmetric] sorted_first_hundred])
qed

text \<open>
  Claim C8. \<^verbatim>\<open>get_stats\<close> returns \<open>success_rate = requests_success / max(1, requests_total)\<close>;
  with an empty latency ring the average, p95 and p99 are 0; with a ring of \<open>n > 0\<close>
  latencies the average is their mean and p95, p99 are the elements of the sorted ring at the
  0-based indices \<open>\<lfloor>n * 0.95\<rfloor>\<close> and \<open>\<lfloor>n * 0.99\<rfloor>\<close>, both below \<open>n\<close>. After recording, on
  fresh metrics, 100 requests whose latencies are the numbers 1 to 100 in any order, it
  reports the average 50.5, p95 = 96 and p99 = 100.
\<close>

theorem get_stats_percentiles:
  "success_rate (get_stats m) =
      real_of_int (requests_success m) / real_of_int (max 1 (requests_total m))
   \<and> (requests_latency_ms m = [] \<longrightarrow>
        avg_latency_ms (get_stats m) = 0 \<and> p95_latency_ms (get_stats m) = 0 \<and>
        p99_latency_ms (get_stats m) = 0)
   \<and> (requests_latency_ms m \<noteq> [] \<longrightarrow>
        avg_latency_ms (get_stats m) =
          sum_list (requests_latency_ms m) / real (length (requests_latency_ms m)) \<and>
        p95_latency_ms (get_stats m) =
          sort (requests_latency_ms m) ! nat \<lfloor>real (length (requests_latency_ms m)) * 0.95\<rfloor> \<and>
        p99_latency_ms (get_stats m) =
          sort (requests_latency_ms m) ! nat \<lfloor>real (length (requests_latency_ms m)) * 0.99\<rfloor> \<and>
        nat \<lfloor>real (length (requests_latency_ms m)) * 0.95\<rfloor> < length (requests_latency_ms m) \<and>
        nat \<lfloor>real (length (requests_latency_ms m)) * 0.99\<rfloor> < length (requests_latency_ms m))
   \<and> (mset (map (\<lambda>q. fst (snd q)) qs) = mset (map real [1..<101]) \<longrightarrow>
        avg_latency_ms (get_stats (record_requests GatewayMetrics_init qs)) = 50.5 \<and>
        p95_latency_ms (get_stats (record_requests GatewayMetrics_init qs)) = 96 \<and>
        p99_latency_ms (get_stats (record_requests GatewayMetrics_init qs)) = 100)"
proof (intro conjI impI)
  assume ne: "requests_latency_ms m \<noteq> []"
  then have n: "0 < length (requests_latency_ms m)" by simp
  show "nat \<lfloor>real (length (requests_latency_ms m)) * 0.95\<rfloor> < length (requests_latency_ms m)"
    using percentile_index_lt [OF n, of "0.95"] by (simp add: percentile_index_def)
  show "nat \<lfloor>real (length (requests_latency_ms m)) * 0.99\<rfloor> < length (requests_latency_ms m)"
    using percentile_index_lt [OF n, of "0.99"] by (simp add: percentile_index_def)
  show "avg_latency_ms (get_stats m) =
          sum_list (requests_latency_ms m) / real (length (requests_latency_ms m))"
    using ne by (simp add: get_stats_def Let_def)
  show "p95_latency_ms (get_stats m) =
          sort (requests_latency_ms m) ! nat \<lfloor>real (length (requests_latency_ms m)) * 0.95\<rfloor>"
    using ne by (simp add: get_stats_def Let_def percentile_index_def)
  show "p99_latency_ms (get_stats m) =
          sort (requests_latency_ms m) ! nat \<lfloor>real (length (requests_latency_ms m)) * 0.99\<rfloor>"
    using ne by (simp add: get_stats_def Let_def percentile_index_def)
next
  assume h: "mset (map (\<lambda>q. fst (snd q)) qs) = mset (map real [1..<101])"
  note facts = hundred_latencies [OF h]
  have ne: "map (\<lambda>q. fst (snd q)) qs \<noteq> []" using facts(2) by auto
  show "avg_latency_ms (get_stats (record_requests GatewayMetrics_init qs)) = 50.5"
    using ne by (simp add: get_stats_def Let_def facts)
  have "map real [1..<101] ! 95 = 96" "map real [1..<101] ! 99 = 100"
    by simp_all
  then show "p95_latency_ms (get_stats (record_requests GatewayMetrics_init qs)) = 96"
    and "p99_latency_ms (get_stats (record_requests GatewayMetrics_init qs)) = 100"
    using ne by (simp_all add: get_stats_def Let_def facts percentile_index_hundred)
qed (simp_all add: get_stats_def Let_def)

theorem get_stats_percentiles_witness:
  "avg_latency_ms (get_stats (record_requests GatewayMetrics_init
      (map (\<lambda>i. (even i, real i, 0, 0)) (rev [1..<101])))) = 50.5
   \<and> p95_latency_ms (get_stats (record_requests GatewayMetrics_init
      (map (\<lambda>i. (even i, real i, 0, 0)) (rev [1..<101])))) = 96
   \<and> p99_latency_ms (get_stats (record_requests GatewayMetrics_init
      (map (\<lambda>i. (even i, real i, 0, 0)) (rev [1..<101])))) = 100
   \<and> avg_latency_ms (get_stats (record_requests GatewayMetrics_init
        [(True, 3, 0, 0), (False, 1, 0, 0), (True, 2, 0, 0)])) = 2
   \<and> p95_latency_ms (get_stats (record_requests GatewayMetrics_init
        [(True, 3, 0, 0), (False, 1, 0, 0), (True, 2, 0, 0)])) = 3
   \<and> success_rate (get_stats (record_requests GatewayMetrics_init
        [(True, 3, 0, 0), (False, 1, 0, 0), (True, 2, 0, 0)])) = 2 / 3
   \<and> p99_latency_ms (get_stats GatewayMetrics_init) = 0"
  using
    get_stats_percentiles
      [of "record_requests GatewayMetrics_init [(True, 3, 0, 0), (False, 1, 0, 0), (True, 2, 0, 0)]"
          "map (\<lambda>i. (even i, real i, 0, 0)) (rev [1..<101])"]
    get_stats_percentiles [of GatewayMetrics_init "[]"]
  by (simp add: GatewayMetrics_init_def record_request_def Let_def comp_def rev_map [symmetric]
        del: upt_Suc)

section \<open>Gateway manager\<close>

lemma health_check_status: "status (snd (health_check g)) = fst (health_check g)"
  by (simp add: health_check_def Let_def)

text \<open>
  Claim C4, as amended. \<^verbatim>\<open>health_check\<close> returns (and stores) healthy when no service is
  registered; otherwise it computes the ratio of the number of healthy instances of all
  registered services to twice the number of registered services: a ratio above 0.75 yields
  healthy, above 0.5 degraded, otherwise unhealthy. With \<open>h\<close> healthy instances and \<open>n\<close>
  services that is: healthy when \<open>2 h > 3 n\<close>, degraded when \<open>n < h\<close> and \<open>2 h \<le> 3 n\<close>,
  unhealthy when \<open>h \<le> n\<close>.
\<close>

theorem health_check_ratio:
  "(services g = [] \<longrightarrow> fst (health_check g) = HEALTHY)
   \<and> (services g \<noteq> [] \<longrightarrow>
        fst (health_check g) =
          (if real (healthy_instance_count (services g)) / (2 * real (length (services g))) > 0.75
           then HEALTHY
           else if real (healthy_instance_count (services g)) / (2 * real (length (services g))) > 0.5
           then DEGRADED else UNHEALTHY))
   \<and> (services g \<noteq> [] \<longrightarrow>
        fst (health_check g) =
          (if 3 * length (services g) < 2 * healthy_instance_count (services g) then HEALTHY
           else if length (services g) < healthy_instance_count (services g) then DEGRADED
           else UNHEALTHY))
   \<and> status (snd (health_check g)) = fst (health_check g)"
proof (intro conjI impI)
  show "status (snd (health_check g)) = fst (health_check g)"
    by (rule health_check_status)
next
  assume "services g = []"
  then show "fst (health_check g) = HEALTHY" by (simp add: health_check_def)
next
  assume ne: "services g \<noteq> []"
  then show r: "fst (health_check g) =
          (if real (healthy_instance_count (services g)) / (2 * real (length (services g))) > 0.75
           then HEALTHY
           else if real (healthy_instance_count (services g)) / (2 * real (length (services g))) > 0.5
           then DEGRADED else UNHEALTHY)"
    by (simp add: health_check_def Let_def mult.commute)
  define h where "h = healthy_instance_count (services g)"
  define n where "n = length (services g)"
  have n: "0 < n" using ne by (simp add: n_def)
  have a: "real h / (2 * real n) > 0.75 \<longleftrightarrow> 3 * n < 2 * h"
  proof -
    have "real h / (2 * real n) > 0.75 \<longleftrightarrow> real (3 * n) < real (2 * h)"
      using n by (simp add: field_simps)
    then show ?thesis by (simp only: of_nat_less_iff)
  qed
  have b: "real h / (2 * real n) > 0.5 \<longleftrightarrow> n < h"
  proof -
    have "real h / (2 * real n) > 0.5 \<longleftrightarrow> real n < real h"
      using n by (simp add: field_simps)
    then show ?thesis by (simp only: of_nat_less_iff)
  qed
  show "fst (health_check g) =
          (if 3 * length (services g) < 2 * healthy_instance_count (services g) then HEALTHY
           else if length (services g) < healthy_instance_count (services g) then DEGRADED
           else UNHEALTHY)"
    unfolding r using a b by (simp only: h_def n_def)
qed

theorem health_check_ratio_witness:
  "fst (health_check (APIGatewayManager_empty ''gateway_config.json'')) = HEALTHY
   \<and> services
        (register_service
          (register_service
            (register_service (APIGatewayManager_empty ''gateway_config.json'')
               ''user-service'' (default_instance ''localhost'' 8001))
            ''user-service'' (default_instance ''localhost'' 8002))
          ''order-service'' (default_instance ''localhost'' 9001)) \<noteq> []
   \<and> fst (health_check
        (register_service
          (register_service
            (register_service (APIGatewayManager_empty ''gateway_config.json'')
               ''user-service'' (default_instance ''localhost'' 8001))
            ''user-service'' (default_instance ''localhost'' 8002))
          ''order-service'' (default_instance ''localhost'' 9001))) = DEGRADED"
  using
    health_check_ratio [of "APIGatewayManager_empty ''gateway_config.json''"]
    health_check_ratio
      [of "register_service
          (register_service
            (register_service (APIGatewayManager_empty ''gateway_config.json'')
               ''user-service'' (default_instance ''localhost'' 8001))
            ''user-service'' (default_instance ''localhost'' 8002))
          ''order-service'' (default_instance ''localhost'' 9001)"]
  by (simp add: APIGatewayManager_empty_def register_service_def default_instance_def Let_def
        healthy_instance_count_def)

text \<open>
  One service with one instance, healthy: every instance is healthy, and \<^verbatim>\<open>health_check\<close>
  returns unhealthy. The three healthy instances of the two services that \<^verbatim>\<open>main\<close>
  registers give degraded.
\<close>

theorem health_check_ratio_counterexample:
  "fst (health_check
      (register_service (APIGatewayManager_empty ''gateway_config.json'')
         ''user-service'' (default_instance ''localhost'' 8001))) = UNHEALTHY
   \<and> healthy_instance_count (services
      (register_service (APIGatewayManager_empty ''gateway_config.json'')
         ''user-service'' (default_instance ''localhost'' 8001))) = 1
   \<and> total_instance_count (services
      (register_service (APIGatewayManager_empty ''gateway_config.json'')
         ''user-service'' (default_instance ''localhost'' 8001))) = 1
   \<and> spec_health_status (services
      (register_service (APIGatewayManager_empty ''gateway_config.json'')
         ''user-service'' (default_instance ''localhost'' 8001))) = HEALTHY"
  by (simp add: APIGatewayManager_empty_def register_service_def default_instance_def Let_def
        healthy_instance_count_def total_instance_count_def health_check_def
        spec_health_status_def)

lemma add_route_routes:
  "routes (add_route g route) = AList.update (route_key_of route) route (routes g)"
  by (simp add: add_route_def Let_def)

lemma add_route_rate_limiters:
  "rate_limiters (add_route g route) =
     (if map_of (rate_limiters g) (route_key_of route) = None
      then AList.update (route_key_of route)
             (RateLimiter_init
                \<lparr>rl_strategy = SLIDING_WINDOW,
                 requests_per_window = rate_limit_requests route,
                 window_size_seconds = rate_limit_window_seconds route,
                 cleanup_interval_seconds = 300\<rparr>)
             (rate_limiters g)
      else rate_limiters g)"
  by (auto simp add: add_route_def Let_def)

lemma add_route_load_balancers:
  "load_balancers (add_route g route) =
     (if map_of (load_balancers g) (backend_service route) = None
      then AList.update (backend_service route) LoadBalancer_init (load_balancers g)
      else load_balancers g)"
  by (simp add: add_route_def Let_def)

lemma map_of_update_same: "map_of (AList.update k v al) k = Some v"
  by (simp add: update_conv')

text \<open>
  Claim C10. After \<^verbatim>\<open>add_route\<close> with a route, a second \<^verbatim>\<open>add_route\<close> with a route of the
  same \<^verbatim>\<open>method:path\<close> key leaves the number of routes and the order of their keys
  unchanged, stores the second route under that key, leaves the rate limiters as they are
  (no second limiter for the key), and leaves the load balancers as they are when the second
  route's backend service already has one, in particular when it is the first route's backend
  service.
\<close>

theorem add_route_idempotent:
  assumes "route_key_of r2 = route_key_of r1"
  shows "length (routes (add_route (add_route g r1) r2)) = length (routes (add_route g r1))
    \<and> map fst (routes (add_route (add_route g r1) r2)) = map fst (routes (add_route g r1))
    \<and> map_of (routes (add_route (add_route g r1) r2)) (route_key_of r1) = Some r2
    \<and> rate_limiters (add_route (add_route g r1) r2) = rate_limiters (add_route g r1)
    \<and> (map_of (load_balancers (add_route g r1)) (backend_service r2) \<noteq> None \<longrightarrow>
         load_balancers (add_route (add_route g r1) r2) = load_balancers (add_route g r1))
    \<and> (backend_service r2 = backend_service r1 \<longrightarrow>
         load_balancers (add_route (add_route g r1) r2) = load_balancers (add_route g r1))"
proof (intro conjI impI)
  have present: "route_key_of r1 \<in> fst ` set (routes (add_route g r1))"
    by (simp add: add_route_routes dom_update)
  then show keys:
    "map fst (routes (add_route (add_route g r1) r2)) = map fst (routes (add_route g r1))"
    by (simp add: add_route_routes [of "add_route g r1"] assms update_keys)
  have "length (map fst (routes (add_route (add_route g r1) r2))) =
        length (map fst (routes (add_route g r1)))"
    by (simp only: keys)
  then show "length (routes (add_route (add_route g r1) r2)) = length (routes (add_route g r1))"
    by simp
  show "map_of (routes (add_route (add_route g r1) r2)) (route_key_of r1) = Some r2"
    by (simp add: add_route_routes [of "add_route g r1"] assms map_of_update_same)
  have "map_of (rate_limiters (add_route g r1)) (route_key_of r1) \<noteq> None"
    by (simp add: add_route_rate_limiters map_of_update_same)
  then show "rate_limiters (add_route (add_route g r1) r2) = rate_limiters (add_route g r1)"
    by (auto simp add: add_route_rate_limiters [of "add_route g r1"] assms)
next
  assume "map_of (load_balancers (add_route g r1)) (backend_service r2) \<noteq> None"
  then show "load_balancers (add_route (add_route g r1) r2) = load_balancers (add_route g r1)"
    by (auto simp add: add_route_load_balancers [of "add_route g r1"])
next
  assume e: "backend_service r2 = backend_service r1"
  have "map_of (load_balancers (add_route g r1)) (backend_service r1) \<noteq> None"
    by (simp add: add_route_load_balancers map_of_update_same)
  then show "load_balancers (add_route (add_route g r1) r2) = load_balancers (add_route g r1)"
    by (auto simp add: add_route_load_balancers [of "add_route g r1"] e)
qed

theorem add_route_idempotent_witness:
  "route_key_of ((default_route ''/api/v1/health'' ''GET'' ''health-check'' 9090)
                   \<lparr>rate_limit_requests := 5\<rparr>)
     = route_key_of (default_route ''/api/v1/health'' ''GET'' ''health-check'' 8080)
   \<and> length (routes (add_route (add_route (APIGatewayManager_empty ''gateway_config.json'')
        (default_route ''/api/v1/health'' ''GET'' ''health-check'' 8080))
        ((default_route ''/api/v1/health'' ''GET'' ''health-check'' 9090)
           \<lparr>rate_limit_requests := 5\<rparr>))) = 1
   \<and> map_of (routes (add_route (add_route (APIGatewayManager_empty ''gateway_config.json'')
        (default_route ''/api/v1/health'' ''GET'' ''health-check'' 8080))
        ((default_route ''/api/v1/health'' ''GET'' ''health-check'' 9090)
           \<lparr>rate_limit_requests := 5\<rparr>))) ''GET:/api/v1/health''
     = Some ((default_route ''/api/v1/health'' ''GET'' ''health-check'' 9090)
           \<lparr>rate_limit_requests := 5\<rparr>)
   \<and> map fst (rate_limiters (add_route (add_route (APIGatewayManager_empty ''gateway_config.json'')
        (default_route ''/api/v1/health'' ''GET'' ''health-check'' 8080))
        ((default_route ''/api/v1/health'' ''GET'' ''health-check'' 9090)
           \<lparr>rate_limit_requests := 5\<rparr>))) = [''GET:/api/v1/health'']
   \<and> map (\<lambda>kv. requests_per_window (config (snd kv)))
        (rate_limiters (add_route (add_route (APIGatewayManager_empty ''gateway_config.json'')
        (default_route ''/api/v1/health'' ''GET'' ''health-check'' 8080))
        ((default_route ''/api/v1/health'' ''GET'' ''health-check'' 9090)
           \<lparr>rate_limit_requests := 5\<rparr>))) = [1000]
   \<and> map fst (load_balancers (add_route (add_route (APIGatewayManager_empty ''gateway_config.json'')
        (default_route ''/api/v1/health'' ''GET'' ''health-check'' 8080))
        ((default_route ''/api/v1/health'' ''GET'' ''health-check'' 9090)
           \<lparr>rate_limit_requests := 5\<rparr>))) = [''health-check'']"
  using add_route_idempotent
    [of "(default_route ''/api/v1/health'' ''GET'' ''health-check'' 9090)
           \<lparr>rate_limit_requests := 5\<rparr>"
        "default_route ''/api/v1/health'' ''GET'' ''health-check'' 8080"
        "APIGatewayManager_empty ''gateway_config.json''"]
  by (simp add: add_route_def route_key_of_def default_route_def APIGatewayManager_empty_def
        RateLimiter_init_def Let_def)

end
